theory Spec2Isabelle
  imports Complex_Main
begin

section \<open>Orchestrator (AntigravityScreen.tsx)\<close>

text \<open>
  JavaScript numbers are modelled as mathematical reals (positions, heights) and
  integers (counters, clock readings in milliseconds); rounding of IEEE doubles is
  outside the model.
\<close>

subsection \<open>Layout-derived bound\<close>

text \<open>
  \<^verbatim>\<open>const BOUNCE_HEIGHT = SCREEN_HEIGHT > 0 ? SCREEN_HEIGHT * 0.35 : 250\<close>
\<close>

definition BOUNCE_HEIGHT :: "real \<Rightarrow> real" where
  "BOUNCE_HEIGHT SCREEN_HEIGHT = (if SCREEN_HEIGHT > 0 then SCREEN_HEIGHT * 0.35 else 250)"

subsection \<open>Main-thread ticker\<close>

text \<open>
  The state of the ticker is the React state \<open>bridgePos\<close> (initially 0) and the mutable
  ref \<open>bridgeDirection\<close> (initially 1). Each firing of the 16 ms interval runs the updater
  \<^verbatim>\<open>
  (prev) => {
    const next = prev + 5 * bridgeDirection.current
    if (next >= BOUNCE_HEIGHT || next <= 0) bridgeDirection.current *= -1
    return next
  }
  \<close>
\<close>

record ticker =
  bridgePos :: real
  bridgeDirection :: real

definition ticker_init :: ticker where
  "ticker_init = \<lparr>bridgePos = 0, bridgeDirection = 1\<rparr>"

definition tick :: "real \<Rightarrow> ticker \<Rightarrow> ticker" where
  "tick bound s =
     (let next = bridgePos s + 5 * bridgeDirection s
      in \<lparr>bridgePos = next,
          bridgeDirection =
            (if next \<ge> bound \<or> next \<le> 0 then bridgeDirection s * (- 1)
             else bridgeDirection s)\<rparr>)"

text \<open>The ticker after \<open>n\<close> firings of the interval.\<close>

definition ticker_after :: "real \<Rightarrow> nat \<Rightarrow> ticker" where
  "ticker_after bound n = (tick bound ^^ n) ticker_init"

text \<open>
  The reflecting-bounce recurrence as the specification words it, with the step and the
  bound as parameters: position and direction after \<open>n\<close> applications from position 0
  and direction +1, the direction reflecting when the next position reaches an end of
  the range.
\<close>

fun bounce_rec :: "real \<Rightarrow> real \<Rightarrow> nat \<Rightarrow> real \<times> real" where
  "bounce_rec step bound 0 = (0, 1)"
| "bounce_rec step bound (Suc n) =
     (case bounce_rec step bound n of
        (pos, dir) \<Rightarrow>
          (pos + step * dir,
           if bound \<le> pos + step * dir \<or> pos + step * dir \<le> 0 then - dir else dir))"

text \<open>
  Number of ticks after which the position first reaches the bound: the least \<open>k\<close>
  with \<open>bound \<le> 5 * k\<close>. Used to describe the trajectory in closed form.
\<close>

definition peak_ticks :: "real \<Rightarrow> nat" where
  "peak_ticks bound = nat \<lceil>bound / 5\<rceil>"

subsection \<open>Jam action\<close>

text \<open>
  \<^verbatim>\<open>
  const jamJSThread = () => {
    setIsJammed(true)
    setTimeout(() => {
      const start = Date.now()
      while (Date.now() - start < 3000) {}
      setIsJammed(false)
    }, 50)
  }
  \<close>
  The main-thread state holds the flag and the list of pending \<open>setTimeout\<close> requests
  (delay in milliseconds, task). The closure handed to \<open>setTimeout\<close> is the task
  \<open>JamBlock\<close>, run by \<open>jam_block\<close>.

  \<open>Date.now()\<close> is a stream of readings: \<open>now i\<close> is the value (integer milliseconds)
  returned by the \<open>i\<close>-th call the task makes, call 0 being \<open>const start = Date.now()\<close>.
  The busy-wait may in principle never see the deadline, so it is a partial function:
  \<open>None\<close> is the loop that does not return.
\<close>

datatype timer_task = JamBlock

record main_state =
  isJammed :: bool
  timeouts :: "(int \<times> timer_task) list"

definition jamJSThread :: "main_state \<Rightarrow> main_state" where
  "jamJSThread st = st\<lparr>isJammed := True, timeouts := timeouts st @ [(50, JamBlock)]\<rparr>"

partial_function (option) busy_wait :: "(nat \<Rightarrow> int) \<Rightarrow> int \<Rightarrow> nat \<Rightarrow> nat option" where
  "busy_wait now start i =
     (if now i - start < 3000 then busy_wait now start (Suc i) else Some i)"

text \<open>
  The task returns the state it leaves and the clock reading at which the loop ended.
\<close>

definition jam_block :: "(nat \<Rightarrow> int) \<Rightarrow> main_state \<Rightarrow> (main_state \<times> int) option" where
  "jam_block now st =
     (let start = now 0
      in case busy_wait now start 1 of
           None \<Rightarrow> None
         | Some i \<Rightarrow> Some (st\<lparr>isJammed := False\<rparr>, now i))"

section \<open>UI-thread animator (RocketAppleColumn.tsx)\<close>

text \<open>
  \<^verbatim>\<open>
  const getAngle = (pos: number, maxHeight: number): number => {
    "worklet"
    return Math.round(interpolate(pos, [0, maxHeight], [0, 360]))
  }
  \<close>
  \<open>Math.round\<close> rounds to the nearest integer, a tie going up.
\<close>

text \<open>
  Modelled from the spec: \<open>interpolate\<close> belongs to the animation library and is not in
  the repository. It is linear interpolation, here for one input segment and the default
  extrapolation (the line is extended beyond the edges): the straight line through the
  two edges, and the left output edge when the input segment is empty.
\<close>

definition interpolate :: "real \<Rightarrow> real \<times> real \<Rightarrow> real \<times> real \<Rightarrow> real" where
  "interpolate x inputRange outputRange =
     (case (inputRange, outputRange) of
        ((leftEdgeInput, rightEdgeInput), (leftEdgeOutput, rightEdgeOutput)) \<Rightarrow>
          if rightEdgeInput - leftEdgeInput = 0 then leftEdgeOutput
          else leftEdgeOutput
                 + (x - leftEdgeInput) / (rightEdgeInput - leftEdgeInput)
                   * (rightEdgeOutput - leftEdgeOutput))"

definition Math_round :: "real \<Rightarrow> int" where
  "Math_round x = \<lfloor>x + 0.5\<rfloor>"

definition getAngle :: "real \<Rightarrow> real \<Rightarrow> int" where
  "getAngle pos maxHeight = Math_round (interpolate pos (0, maxHeight) (0, 360))"

text \<open>
  Linear interpolation as the specification writes it,
  \<open>lerp(x, [a,b] \<rightarrow> [c,d])\<close>, to compare \<open>getAngle\<close> with.
\<close>

definition lerp :: "real \<Rightarrow> real \<Rightarrow> real \<Rightarrow> real \<Rightarrow> real \<Rightarrow> real" where
  "lerp x a b c d = c + (x - a) * (d - c) / (b - a)"

section \<open>Background worker and frame poller (WorkerColumn.tsx)\<close>

subsection \<open>The cross-runtime counter\<close>

text \<open>
  Modelled from the spec: \<open>createSynchronizable\<close>, \<open>setBlocking\<close> and \<open>getDirty\<close> belong to
  the worklet-runtime library and are not in the repository. \<open>bgCount =
  createSynchronizable(0)\<close> is a cell holding a number, \<open>setBlocking(setter)\<close> replaces the
  content by \<open>setter(content)\<close> in one atomic step and \<open>getDirty()\<close> returns the latest
  committed content without blocking; a cell is modelled by its content.
\<close>

definition setBlocking :: "(int \<Rightarrow> int) \<Rightarrow> int \<Rightarrow> int" where
  "setBlocking setter cell = setter cell"

definition getDirty :: "int \<Rightarrow> int" where
  "getDirty cell = cell"

definition bgCount_init :: int where
  "bgCount_init = 0"

subsection \<open>Worker loop\<close>

text \<open>
  \<^verbatim>\<open>
  setInterval(() => {
    for (let i = 0; i < 2000000; i++) {
      Math.sqrt(i)
    }
    bgCount.setBlocking((prev) => {
      console.log("worker tick", prev + 1)
      return prev + 1
    })
  }, 1500)
  \<close>
  The body of the \<open>for\<close> loop computes a square root and drops it, so the loop is
  modelled by its counter alone; it returns the counter's final value, which is the number
  of iterations made.
\<close>

function sqrt_loop :: "nat \<Rightarrow> nat" where
  "sqrt_loop i = (if i < 2000000 then sqrt_loop (i + 1) else i)"
  by pat_completeness auto
termination
  by (relation "measure (\<lambda>i. 2000000 - i)") auto

declare sqrt_loop.simps [simp del]

text \<open>One firing of the interval: the loop, then the increment.\<close>

definition worker_tick :: "int \<Rightarrow> int" where
  "worker_tick bgCount =
     (let i = sqrt_loop 0 in setBlocking (\<lambda>prev. prev + 1) bgCount)"

text \<open>The counter after \<open>n\<close> firings of the worker's interval.\<close>

definition bgCount_after :: "nat \<Rightarrow> int" where
  "bgCount_after n = (worker_tick ^^ n) bgCount_init"

subsection \<open>Animations\<close>

text \<open>
  Modelled from the spec: \<open>withTiming\<close> and \<open>Easing\<close> belong to the animation library and
  are not in the repository. \<open>withTiming(toValue, {duration, easing}, callback)\<close> describes
  an animation of a shared value to \<open>toValue\<close>, lasting \<open>duration\<close> milliseconds, eased, with
  \<open>callback\<close> run on completion. The only easing used is \<open>Easing.inOut(Easing.quad)\<close>. The
  only completion callback used assigns another animation to the same shared value, so a
  callback is modelled by the animation it starts.
\<close>

datatype easing = InOutQuad

datatype animation = Timing real real easing "animation option"

definition withTiming :: "real \<Rightarrow> real \<Rightarrow> easing \<Rightarrow> animation option \<Rightarrow> animation" where
  "withTiming toValue duration e callback = Timing toValue duration e callback"

text \<open>
  Modelled from the spec: the ease-in-out quadratic curve of the library,
  \<open>quad(t) = t * t\<close> and \<open>inOut(f)(t) = t < 0.5 ? f(t * 2) / 2 : 1 - f((1 - t) * 2) / 2\<close>.
\<close>

fun ease :: "easing \<Rightarrow> real \<Rightarrow> real" where
  "ease InOutQuad t =
     (if t < 0.5 then (t * 2) * (t * 2) / 2 else 1 - ((1 - t) * 2) * ((1 - t) * 2) / 2)"

text \<open>
  Modelled from the spec: how the library runs an animation. This is
  the value of a shared value \<open>t\<close> milliseconds after an animation was assigned to it when
  it held \<open>startValue\<close>, the animation running undisturbed: the eased line from the start
  value to the target while the duration lasts, then the target, the callback's animation
  taking over from there.
\<close>

fun animation_value :: "real \<Rightarrow> animation \<Rightarrow> real \<Rightarrow> real" where
  "animation_value startValue (Timing toValue duration e callback) t =
     (if t < duration then startValue + (toValue - startValue) * ease e (t / duration)
      else (case callback of
              None \<Rightarrow> toValue
            | Some next \<Rightarrow> animation_value toValue next (t - duration)))"

subsection \<open>Frame poller\<close>

text \<open>
  \<^verbatim>\<open>
  useFrameCallback(() => {
    const current = bgCount.getDirty()
    if (displayCount.value !== current) {
      displayCount.value = current
      ballY.value = withTiming(
        bounceHeight,
        { duration: 500, easing: Easing.inOut(Easing.quad) },
        () => {
          "worklet"
          ballY.value = withTiming(0, { duration: 500, easing: Easing.inOut(Easing.quad) })
        },
      )
    }
  })
  \<close>
  The UI-thread state is \<open>displayCount\<close>, the value of \<open>ballY\<close> and the animation assigned
  to \<open>ballY\<close>. The field \<open>animations_started\<close> is not a variable of the source: it counts
  the assignments of an animation to \<open>ballY\<close>, so that theorems can speak of how many
  bounces were started. The callback is the same in components/antigravity and in
  screens/antigravity.
\<close>

record ui_state =
  displayCount :: int
  ballY :: real
  ballY_animation :: "animation option"
  animations_started :: nat

definition ui_init :: ui_state where
  "ui_init = \<lparr>displayCount = 0, ballY = 0, ballY_animation = None, animations_started = 0\<rparr>"

definition bounce :: "real \<Rightarrow> animation" where
  "bounce bounceHeight =
     withTiming bounceHeight 500 InOutQuad (Some (withTiming 0 500 InOutQuad None))"

definition frame_callback :: "real \<Rightarrow> int \<Rightarrow> ui_state \<Rightarrow> ui_state" where
  "frame_callback bounceHeight bgCount st =
     (let current = getDirty bgCount
      in if displayCount st \<noteq> current
         then st\<lparr>displayCount := current,
                 ballY_animation := Some (bounce bounceHeight),
                 animations_started := animations_started st + 1\<rparr>
         else st)"

text \<open>Position of the ball \<open>t\<close> milliseconds after the frame that left the state \<open>st\<close>.\<close>

definition ballY_at :: "ui_state \<Rightarrow> real \<Rightarrow> real" where
  "ballY_at st t =
     (case ballY_animation st of
        None \<Rightarrow> ballY st
      | Some a \<Rightarrow> animation_value (ballY st) a t)"

text \<open>
  A run of frames, each given the content of the counter at that frame, and the number of
  places in a sequence of readings where the reading differs from the one before.
\<close>

fun run_frames :: "real \<Rightarrow> int list \<Rightarrow> ui_state \<Rightarrow> ui_state" where
  "run_frames bounceHeight [] st = st"
| "run_frames bounceHeight (c # cs) st =
     run_frames bounceHeight cs (frame_callback bounceHeight c st)"

fun count_changes :: "int \<Rightarrow> int list \<Rightarrow> nat" where
  "count_changes prev [] = 0"
| "count_changes prev (c # cs) = (if c \<noteq> prev then 1 else 0) + count_changes c cs"

section \<open>Properties of the main-thread ticker\<close>

lemma ticker_after_0: "ticker_after B 0 = ticker_init"
  by (simp add: ticker_after_def)

lemma ticker_after_Suc: "ticker_after B (Suc n) = tick B (ticker_after B n)"
  by (simp add: ticker_after_def)

lemma ticker_after_bounce_rec:
  "(bridgePos (ticker_after B n), bridgeDirection (ticker_after B n)) = bounce_rec 5 B n"
proof (induction n)
  case 0
  show ?case by (simp add: ticker_after_0 ticker_init_def)
next
  case (Suc n)
  from Suc.IH [symmetric] show ?case
    by (simp add: ticker_after_Suc tick_def Let_def)
qed

lemma ticker_after_250:
  "n \<le> 50 \<Longrightarrow> ticker_after 250 n =
     \<lparr>bridgePos = 5 * real n, bridgeDirection = (if n < 50 then 1 else - 1)\<rparr>"
proof (induction n)
  case 0
  show ?case by (simp add: ticker_after_0 ticker_init_def)
next
  case (Suc n)
  then have IH: "ticker_after 250 n = \<lparr>bridgePos = 5 * real n, bridgeDirection = 1\<rparr>"
    by simp
  show ?case
    using Suc.prems by (simp add: ticker_after_Suc IH tick_def Let_def algebra_simps)
qed

text \<open>
  C4. After \<open>N\<close> ticks the ticker's position and direction are those of the
  reflecting-bounce recurrence applied \<open>N\<close> times from position 0 and direction +1 with
  step 5 and bound \<open>B\<close>. With \<open>B = 250\<close> the position after \<open>n \<le> 50\<close> ticks is \<open>5 * n\<close>,
  the direction is still +1 after each of the first 49 ticks (no earlier reflection), and
  the 50th tick brings the position to exactly 250 and flips the direction to -1.
\<close>

theorem C4_ticker_recurrence:
  "(bridgePos (ticker_after B N), bridgeDirection (ticker_after B N)) = bounce_rec 5 B N
   \<and> (\<forall>n\<le>50. bridgePos (ticker_after 250 n) = 5 * real n)
   \<and> (\<forall>n<50. bridgeDirection (ticker_after 250 n) = 1)
   \<and> bridgePos (ticker_after 250 50) = 250
   \<and> bridgeDirection (ticker_after 250 50) = - 1"
proof -
  have "bridgePos (ticker_after 250 n) = 5 * real n" if "n \<le> 50" for n
    using ticker_after_250 [OF that] by simp
  moreover have "bridgeDirection (ticker_after 250 n) = 1" if "n < 50" for n
    using ticker_after_250 [of n] that by simp
  moreover have "bridgePos (ticker_after 250 50) = 250"
    "bridgeDirection (ticker_after 250 50) = - 1"
    using ticker_after_250 [of 50] by simp_all
  ultimately show ?thesis
    using ticker_after_bounce_rec [of B N] by blast
qed

theorem C4_ticker_recurrence_witness:
  "(bridgePos (ticker_after 250 50), bridgeDirection (ticker_after 250 50)) = bounce_rec 5 250 50
   \<and> bridgePos (ticker_after 250 49) = 245
   \<and> bridgeDirection (ticker_after 250 49) = 1
   \<and> bridgePos (ticker_after 250 50) = 250
   \<and> bridgeDirection (ticker_after 250 50) = - 1"
proof -
  note t = C4_ticker_recurrence [of 250 50]
  from t have p: "\<forall>n\<le>50. bridgePos (ticker_after 250 n) = 5 * real n"
    and d: "\<forall>n<50. bridgeDirection (ticker_after 250 n) = 1"
    and r: "(bridgePos (ticker_after 250 50), bridgeDirection (ticker_after 250 50))
              = bounce_rec 5 250 50"
    and e: "bridgePos (ticker_after 250 50) = 250"
      "bridgeDirection (ticker_after 250 50) = - 1"
    by blast+
  from p have "bridgePos (ticker_after 250 49) = 245"
    by (simp del: One_nat_def)
  moreover from d have "bridgeDirection (ticker_after 250 49) = 1"
    by simp
  ultimately show ?thesis
    using r e by blast
qed

text \<open>
  The whole trajectory in closed form, for any positive bound: a triangle wave between 0
  and \<open>5 * peak_ticks bound\<close> (the first multiple of 5 at or above the bound) of period
  \<open>2 * peak_ticks bound\<close> ticks, the direction being +1 on the way up and -1 on the way
  down.
\<close>

lemma reaches_bound_iff: "bound \<le> 5 * real j \<longleftrightarrow> peak_ticks bound \<le> j"
proof -
  have "bound \<le> 5 * real j \<longleftrightarrow> bound / 5 \<le> real_of_int (int j)" by auto
  also have "\<dots> \<longleftrightarrow> \<lceil>bound / 5\<rceil> \<le> int j" by (simp only: ceiling_le_iff)
  also have "\<dots> \<longleftrightarrow> peak_ticks bound \<le> j" by (simp add: peak_ticks_def nat_le_iff)
  finally show ?thesis .
qed

lemma peak_ticks_pos: "bound > 0 \<Longrightarrow> peak_ticks bound > 0"
  by (simp add: peak_ticks_def)

lemma ticker_after_closed_form:
  assumes "bound > 0"
  shows "ticker_after bound n =
     (let k = peak_ticks bound; m = n mod (2 * k)
      in \<lparr>bridgePos = 5 * real (if m \<le> k then m else 2 * k - m),
          bridgeDirection = (if m < k then 1 else - 1)\<rparr>)"
proof (induction n)
  case 0
  show ?case
    using peak_ticks_pos [OF assms] by (simp add: ticker_after_0 ticker_init_def Let_def)
next
  case (Suc n)
  define k where "k = peak_ticks bound"
  define m where "m = n mod (2 * k)"
  have k: "k > 0" unfolding k_def by (rule peak_ticks_pos [OF assms])
  have m: "m < 2 * k" unfolding m_def using k by simp
  have IH: "ticker_after bound n =
      \<lparr>bridgePos = 5 * real (if m \<le> k then m else 2 * k - m),
       bridgeDirection = (if m < k then 1 else - 1)\<rparr>"
    using Suc.IH by (simp add: Let_def k_def m_def)
  have sm: "Suc n mod (2 * k) = (if Suc m = 2 * k then 0 else Suc m)"
    unfolding m_def by (rule mod_Suc)
  have goal: "tick bound (ticker_after bound n) =
      \<lparr>bridgePos = 5 * real (if Suc n mod (2 * k) \<le> k then Suc n mod (2 * k)
                              else 2 * k - Suc n mod (2 * k)),
       bridgeDirection = (if Suc n mod (2 * k) < k then 1 else - 1)\<rparr>"
  proof (cases "m < k")
    case True
    then have nx: "bridgePos (ticker_after bound n)
        + 5 * bridgeDirection (ticker_after bound n) = 5 * real (Suc m)"
      by (simp add: IH)
    have fl: "(bound \<le> 5 * real (Suc m) \<or> 5 * real (Suc m) \<le> 0) \<longleftrightarrow> k \<le> Suc m"
      using reaches_bound_iff [of bound "Suc m"] by (simp add: k_def)
    have "Suc m \<noteq> 2 * k" using True k by simp
    then have sm': "Suc n mod (2 * k) = Suc m" using sm by simp
    show ?thesis
      unfolding tick_def Let_def nx fl sm' using True by (auto simp: IH)
  next
    case False
    then have km: "k \<le> m" by simp
    have pos: "(if m \<le> k then m else 2 * k - m) = 2 * k - m" using km by auto
    have nx: "bridgePos (ticker_after bound n)
        + 5 * bridgeDirection (ticker_after bound n) = 5 * real (2 * k - Suc m)"
      using km m False by (simp add: IH pos of_nat_diff algebra_simps)
    have "\<not> k \<le> 2 * k - Suc m" using km k by simp
    then have fl: "(bound \<le> 5 * real (2 * k - Suc m) \<or> 5 * real (2 * k - Suc m) \<le> 0)
        \<longleftrightarrow> Suc m = 2 * k"
      using reaches_bound_iff [of bound "2 * k - Suc m"] m by (auto simp add: k_def)
    show ?thesis
    proof (cases "Suc m = 2 * k")
      case True
      then show ?thesis
        unfolding tick_def Let_def nx fl sm using False k by (simp add: IH)
    next
      case F2: False
      then show ?thesis
        unfolding tick_def Let_def nx fl sm using False km k m by (auto simp add: IH)
    qed
  qed
  show ?case
    unfolding ticker_after_Suc using goal by (simp add: Let_def k_def)
qed

text \<open>
  C5, as the code has it. Each tick computes \<open>next = pos + 5 * dir\<close> and returns \<open>next\<close>
  itself as the new position, never a clamped value; for a direction other than 0 the
  sign of the direction is flipped if and only if \<open>next\<close> reaches or exceeds the bound
  (\<open>next \<ge> bound\<close>) or reaches or goes below zero (\<open>next \<le> 0\<close>), and is kept otherwise.
\<close>

theorem C5_tick_reflects:
  assumes "bridgeDirection s \<noteq> 0"
  shows "bridgePos (tick B s) = bridgePos s + 5 * bridgeDirection s
     \<and> (bridgeDirection (tick B s) = - bridgeDirection s
          \<longleftrightarrow> B \<le> bridgePos s + 5 * bridgeDirection s
              \<or> bridgePos s + 5 * bridgeDirection s \<le> 0)
     \<and> (bridgeDirection (tick B s) = bridgeDirection s
          \<longleftrightarrow> \<not> (B \<le> bridgePos s + 5 * bridgeDirection s
                 \<or> bridgePos s + 5 * bridgeDirection s \<le> 0))"
  using assms by (simp add: tick_def Let_def)

text \<open>
  An overshoot that is kept: with bound 252, position 250 and direction +1 the tick
  returns 255, above the bound, and flips the direction.
\<close>

theorem C5_tick_reflects_witness:
  "bridgeDirection \<lparr>bridgePos = 250, bridgeDirection = 1\<rparr> \<noteq> 0
   \<and> bridgePos (tick 252 \<lparr>bridgePos = 250, bridgeDirection = 1\<rparr>) = 255
   \<and> bridgeDirection (tick 252 \<lparr>bridgePos = 250, bridgeDirection = 1\<rparr>) = - 1"
  using C5_tick_reflects [of "\<lparr>bridgePos = 250, bridgeDirection = 1\<rparr>" 252] by simp

text \<open>
  C5 with "exceeds" and "goes below" read strictly fails where \<open>next\<close> meets the bound:
  from position 245 with direction +1 and bound 250, \<open>next = 250\<close> neither exceeds 250 nor
  is below zero, yet the direction is flipped.
\<close>

theorem C5_strict_flip_counterexample:
  "\<not> (bridgeDirection (tick 250 \<lparr>bridgePos = 245, bridgeDirection = 1\<rparr>)
        = - bridgeDirection \<lparr>bridgePos = 245, bridgeDirection = 1\<rparr>
      \<longleftrightarrow> (250 :: real) < 245 + 5 * 1 \<or> (245 :: real) + 5 * 1 < 0)"
  by (simp add: tick_def Let_def)

section \<open>Properties of the layout-derived bound\<close>

text \<open>
  C8. The layout-derived bound is 35% of the viewport height whenever that height is
  strictly positive, and the fixed fallback 250 whenever it is not positive (the value
  reported while the height is not yet known); the computation is total, so the
  fallback case yields a value and no error. In either case the bound is positive.
\<close>

theorem C8_bounce_height:
  "(h > 0 \<longrightarrow> BOUNCE_HEIGHT h = 35 / 100 * h)
   \<and> (h \<le> 0 \<longrightarrow> BOUNCE_HEIGHT h = 250)
   \<and> BOUNCE_HEIGHT h > 0"
  by (simp add: BOUNCE_HEIGHT_def)

theorem C8_bounce_height_witness:
  "(1000 :: real) > 0 \<and> BOUNCE_HEIGHT 1000 = 350
   \<and> (0 :: real) \<le> 0 \<and> BOUNCE_HEIGHT 0 = 250"
  using C8_bounce_height [of 1000] C8_bounce_height [of 0] by simp

section \<open>Properties of the jam action\<close>

text \<open>
  The busy-wait returns the index of the first clock reading, from the one it starts at,
  that is 3000 ms or more past \<open>start\<close>.
\<close>

lemma busy_wait_first:
  "i \<le> j \<Longrightarrow> \<not> now j - start < 3000
     \<Longrightarrow> (\<forall>k. i \<le> k \<and> k < j \<longrightarrow> now k - start < 3000)
     \<Longrightarrow> busy_wait now start i = Some j"
proof (induction "j - i" arbitrary: i)
  case 0
  then have "i = j" by simp
  with 0 show ?case by (subst busy_wait.simps) simp
next
  case (Suc d)
  then have lt: "i < j" by simp
  with Suc.prems have here: "now i - start < 3000" by simp
  have "busy_wait now start (Suc i) = Some j"
  proof (rule Suc.hyps(1))
    show "d = j - Suc i" using Suc.hyps(2) by simp
    show "Suc i \<le> j" using lt by simp
    show "\<not> now j - start < 3000" by (rule Suc.prems(2))
    show "\<forall>k. Suc i \<le> k \<and> k < j \<longrightarrow> now k - start < 3000"
      using Suc.prems(3) by simp
  qed
  with here show ?case by (subst busy_wait.simps) simp
qed

lemma first_reading_past_deadline:
  fixes now :: "nat \<Rightarrow> int"
  assumes reach: "\<exists>i. now i \<ge> now 0 + 3000"
  shows "\<exists>j\<ge>1. now j \<ge> now 0 + 3000 \<and> (\<forall>k<j. now k < now 0 + 3000)"
proof -
  define j where "j = (LEAST i. now i \<ge> now 0 + 3000)"
  from reach have at: "now j \<ge> now 0 + 3000"
    unfolding j_def by (rule LeastI_ex)
  have before: "now k < now 0 + 3000" if "k < j" for k
    using not_less_Least [of k "\<lambda>i. now i \<ge> now 0 + 3000"] that
    unfolding j_def by simp
  have "j \<noteq> 0" using at by (cases "j = 0") auto
  with at before show ?thesis by (intro exI [of _ j]) auto
qed

text \<open>
  C7. The jam action sets the flag at once (so it is set within 50 ms of the invocation)
  and hands the blocking task to \<open>setTimeout\<close> with a delay of 50 ms. Provided the clock
  reaches the deadline at all, the task returns, having read the clock at \<open>start\<close>, spun
  while every reading was less than 3000 ms past \<open>start\<close>, and set the flag back to false
  at the first reading 3000 ms or more past \<open>start\<close>; nothing else of the state changes.
  When consecutive readings of the clock differ by at most 1 ms (the loop polls at least
  once per millisecond), that reading is exactly 3000 ms past \<open>start\<close>.
\<close>

theorem C7_jam_sequence:
  fixes now :: "nat \<Rightarrow> int"
  assumes reach: "\<exists>i. now i \<ge> now 0 + 3000"
  shows "isJammed (jamJSThread st)
     \<and> timeouts (jamJSThread st) = timeouts st @ [(50, JamBlock)]
     \<and> (\<exists>st' j. jam_block now (jamJSThread st) = Some (st', now j)
           \<and> busy_wait now (now 0) 1 = Some j
           \<and> (\<forall>k<j. now k - now 0 < 3000)
           \<and> now j - now 0 \<ge> 3000
           \<and> ((\<forall>i. now (Suc i) = now i \<or> now (Suc i) = now i + 1)
                \<longrightarrow> now j - now 0 = 3000)
           \<and> \<not> isJammed st'
           \<and> timeouts st' = timeouts (jamJSThread st))"
proof -
  from first_reading_past_deadline [OF reach] obtain j
    where j: "1 \<le> j" "now j \<ge> now 0 + 3000" "\<forall>k<j. now k < now 0 + 3000"
    by blast
  have bw: "busy_wait now (now 0) 1 = Some j"
    by (rule busy_wait_first) (use j in auto)
  have exact: "now j - now 0 = 3000"
    if step: "\<forall>i. now (Suc i) = now i \<or> now (Suc i) = now i + 1"
  proof -
    from j(1) obtain m where m: "j = Suc m" by (cases j) auto
    have "now m < now 0 + 3000" using j(3) m by simp
    moreover have "now j = now m \<or> now j = now m + 1" using step m by simp
    ultimately show ?thesis using j(2) by auto
  qed
  have "jam_block now (jamJSThread st) = Some (jamJSThread st\<lparr>isJammed := False\<rparr>, now j)"
    using bw by (simp add: jam_block_def Let_def)
  moreover have "\<forall>k<j. now k - now 0 < 3000" using j(3) by auto
  moreover have "now j - now 0 \<ge> 3000" using j(2) by simp
  ultimately show ?thesis
    using bw exact by (auto simp add: jamJSThread_def)
qed

text \<open>A clock that is read once per millisecond, starting at 0.\<close>

theorem C7_jam_sequence_witness:
  "(\<exists>i. int i \<ge> int 0 + 3000)
   \<and> (\<forall>i. int (Suc i) = int i \<or> int (Suc i) = int i + 1)
   \<and> isJammed (jamJSThread \<lparr>isJammed = False, timeouts = []\<rparr>)
   \<and> timeouts (jamJSThread \<lparr>isJammed = False, timeouts = []\<rparr>) = [(50, JamBlock)]
   \<and> (\<exists>st'. jam_block int (jamJSThread \<lparr>isJammed = False, timeouts = []\<rparr>) = Some (st', 3000)
           \<and> \<not> isJammed st')"
proof -
  have step: "\<forall>i. int (Suc i) = int i \<or> int (Suc i) = int i + 1" by simp
  have reach: "\<exists>i. int i \<ge> int 0 + 3000" by (rule exI [of _ 3000]) simp
  from C7_jam_sequence [of int, OF reach, of "\<lparr>isJammed = False, timeouts = []\<rparr>"]
  obtain st' j where
    "jam_block int (jamJSThread \<lparr>isJammed = False, timeouts = []\<rparr>) = Some (st', int j)"
    "(\<forall>i. int (Suc i) = int i \<or> int (Suc i) = int i + 1) \<longrightarrow> int j - int 0 = 3000"
    "\<not> isJammed st'"
    by blast
  with step have "jam_block int (jamJSThread \<lparr>isJammed = False, timeouts = []\<rparr>) = Some (st', 3000)
      \<and> \<not> isJammed st'"
    by simp
  then show ?thesis
    using step reach by (auto simp add: jamJSThread_def)
qed

section \<open>Properties of the derived angle\<close>

lemma interpolate_pos:
  "B > 0 \<Longrightarrow> interpolate pos (0, B) (0, 360) = pos / B * 360"
  by (simp add: interpolate_def)

lemma getAngle_mono: "B > 0 \<Longrightarrow> p \<le> q \<Longrightarrow> getAngle p B \<le> getAngle q B"
  by (simp add: getAngle_def Math_round_def interpolate_pos floor_mono divide_right_mono)

text \<open>
  C6. For every position and every positive bound, \<open>getAngle\<close> is the linear
  interpolation of the position from \<open>[0, bound]\<close> to \<open>[0, 360]\<close> rounded to the nearest
  integer; it is 0 at position 0 and 360 at the bound, it maps \<open>[0, bound]\<close> into
  \<open>[0, 360]\<close>, and it is monotonically non-decreasing in the position over \<open>[0, bound]\<close>.
\<close>

theorem C6_angle:
  assumes "B > 0"
  shows "getAngle pos B = round (lerp pos 0 B 0 360)
     \<and> getAngle 0 B = 0
     \<and> getAngle B B = 360
     \<and> (0 \<le> pos \<and> pos \<le> B \<longrightarrow> 0 \<le> getAngle pos B \<and> getAngle pos B \<le> 360)
     \<and> (\<forall>p q. 0 \<le> p \<and> p \<le> q \<and> q \<le> B \<longrightarrow> getAngle p B \<le> getAngle q B)"
proof -
  have z: "getAngle 0 B = 0"
    using assms by (simp add: getAngle_def Math_round_def interpolate_pos)
  have b: "getAngle B B = 360"
    using assms by (simp add: getAngle_def Math_round_def interpolate_pos)
  have r: "getAngle pos B = round (lerp pos 0 B 0 360)"
    using assms by (simp add: getAngle_def Math_round_def interpolate_pos lerp_def round_def)
  have "0 \<le> getAngle pos B \<and> getAngle pos B \<le> 360" if "0 \<le> pos" "pos \<le> B"
    using getAngle_mono [OF assms that(1)] getAngle_mono [OF assms that(2)] z b by simp
  with z b r getAngle_mono [OF assms] show ?thesis by blast
qed

theorem C6_angle_witness:
  "(250 :: real) > 0 \<and> getAngle 0 250 = 0 \<and> getAngle 250 250 = 360
   \<and> getAngle 100 250 = 144 \<and> getAngle 100 250 \<le> getAngle 200 250"
proof -
  have h: "(250 :: real) > 0" by simp
  note t = C6_angle [OF h, of 100]
  from t have m: "\<forall>p q. 0 \<le> p \<and> p \<le> q \<and> q \<le> 250 \<longrightarrow> getAngle p 250 \<le> getAngle q 250"
    and r: "getAngle 100 250 = round (lerp 100 0 250 0 360)"
    and e: "getAngle 0 250 = 0" "getAngle 250 250 = 360"
    by blast+
  from m have "getAngle 100 250 \<le> getAngle 200 250" by simp
  moreover from r have "getAngle 100 250 = 144" by (simp add: lerp_def)
  ultimately show ?thesis using e by simp
qed

section \<open>Properties of the worker and the frame poller\<close>

lemma sqrt_loop_eq: "sqrt_loop i = max i 2000000"
proof (induction i rule: sqrt_loop.induct)
  case (1 i)
  show ?case
  proof (cases "i < 2000000")
    case True
    with 1 show ?thesis by (subst sqrt_loop.simps) simp
  next
    case False
    then show ?thesis by (subst sqrt_loop.simps) simp
  qed
qed

lemma worker_tick_eq: "worker_tick c = c + 1"
  by (simp add: worker_tick_def Let_def setBlocking_def)

lemma worker_ticks_eq: "(worker_tick ^^ k) c = c + int k"
  by (induction k) (simp_all add: worker_tick_eq)

lemma bgCount_after_eq: "bgCount_after n = int n"
  by (simp add: bgCount_after_def bgCount_init_def worker_ticks_eq)

text \<open>
  C1. The counter starts at 0; one firing of the worker's interval runs the loop of
  2,000,000 iterations to its end and then adds exactly 1 to the counter; so after \<open>n\<close>
  firings the counter is \<open>n\<close>, each firing raises it by exactly 1 (no value is skipped),
  and over any sequence of firings it never decreases.
\<close>

theorem C1_counter_monotone:
  "bgCount_after 0 = 0
   \<and> sqrt_loop 0 = 2000000
   \<and> (\<forall>c. worker_tick c = c + 1)
   \<and> (\<forall>n. bgCount_after (Suc n) = bgCount_after n + 1)
   \<and> (\<forall>m n. m \<le> n \<longrightarrow> bgCount_after m \<le> bgCount_after n)
   \<and> (\<forall>n. bgCount_after n = int n)"
  by (simp add: bgCount_after_eq worker_tick_eq sqrt_loop_eq)

theorem C1_counter_monotone_witness:
  "(2 :: nat) \<le> 5 \<and> bgCount_after 2 \<le> bgCount_after 5 \<and> bgCount_after 5 = 5
   \<and> bgCount_after 3 = bgCount_after 2 + 1"
proof -
  note t = C1_counter_monotone
  from t have m: "\<forall>m n. m \<le> n \<longrightarrow> bgCount_after m \<le> bgCount_after n"
    and e: "\<forall>n. bgCount_after n = int n" by blast+
  from m have "bgCount_after 2 \<le> bgCount_after 5" by simp
  moreover from e have "bgCount_after 5 = 5" "bgCount_after 3 = bgCount_after 2 + 1"
    by simp_all
  ultimately show ?thesis by simp
qed

lemma frame_callback_same:
  "displayCount st = getDirty c \<Longrightarrow> frame_callback B c st = st"
  by (simp add: frame_callback_def Let_def)

lemma frame_callback_displayCount:
  "displayCount (frame_callback B c st) = getDirty c"
  by (simp add: frame_callback_def Let_def)

lemma frame_callback_changed:
  "displayCount st \<noteq> getDirty c \<Longrightarrow>
     frame_callback B c st =
       st\<lparr>displayCount := getDirty c, ballY_animation := Some (bounce B),
          animations_started := animations_started st + 1\<rparr>"
  by (simp add: frame_callback_def Let_def)

lemma frame_callback_started:
  "animations_started (frame_callback B c st)
     = animations_started st + (if getDirty c \<noteq> displayCount st then 1 else 0)"
  by (auto simp add: frame_callback_def Let_def)

lemma run_frames_started:
  "animations_started (run_frames B cs st)
     = animations_started st + count_changes (displayCount st) cs"
  by (induction cs arbitrary: st)
     (simp_all add: frame_callback_started frame_callback_displayCount getDirty_def)

lemma animation_value_bounce:
  "animation_value v (bounce B) t =
     (if t < 500 then v + (B - v) * ease InOutQuad (t / 500)
      else if t < 1000 then B + (0 - B) * ease InOutQuad ((t - 500) / 500)
      else 0)"
  by (simp add: bounce_def withTiming_def)

lemma ease_ends: "ease InOutQuad 0 = 0" "ease InOutQuad 1 = 1"
  by simp_all

text \<open>
  C2. In every frame in which the value read from the counter differs from
  \<open>displayCount\<close>, the poller sets \<open>displayCount\<close> to the value read and assigns to
  \<open>ballY\<close> the two-phase bounce: an eased animation to the bound lasting 500 ms whose
  completion callback assigns an eased animation back to 0 lasting 500 ms; exactly one
  animation is started. Left undisturbed, the ball leaves from where it was, is at the
  bound after 500 ms and is back at 0 from 1000 ms on. (On which thread the callback runs
  is not part of the model.)
\<close>

theorem C2_poller_starts_bounce:
  assumes "displayCount st \<noteq> getDirty bgCount"
  shows "displayCount (frame_callback B bgCount st) = getDirty bgCount
     \<and> ballY_animation (frame_callback B bgCount st)
         = Some (Timing B 500 InOutQuad (Some (Timing 0 500 InOutQuad None)))
     \<and> ballY (frame_callback B bgCount st) = ballY st
     \<and> animations_started (frame_callback B bgCount st) = animations_started st + 1
     \<and> (\<forall>t. 0 \<le> t \<and> t < 500 \<longrightarrow>
           ballY_at (frame_callback B bgCount st) t
             = ballY st + (B - ballY st) * ease InOutQuad (t / 500))
     \<and> ballY_at (frame_callback B bgCount st) 0 = ballY st
     \<and> ballY_at (frame_callback B bgCount st) 500 = B
     \<and> (\<forall>t. 500 \<le> t \<and> t < 1000 \<longrightarrow>
           ballY_at (frame_callback B bgCount st) t
             = B + (0 - B) * ease InOutQuad ((t - 500) / 500))
     \<and> (\<forall>t\<ge>1000. ballY_at (frame_callback B bgCount st) t = 0)"
proof -
  have at: "ballY_at (frame_callback B bgCount st) t = animation_value (ballY st) (bounce B) t"
    for t
    by (simp add: frame_callback_changed [OF assms] ballY_at_def)
  show ?thesis
    unfolding at animation_value_bounce
    by (simp add: frame_callback_changed [OF assms] bounce_def withTiming_def)
qed

text \<open>
  The scenario of one worker firing: the counter goes from 0 to 1, the next frame sets
  \<open>displayCount\<close> to 1, and with bound 250 the ball is at 125, 250, 125 and 0 after 250,
  500, 750 and 1000 ms.
\<close>

theorem C2_poller_starts_bounce_witness:
  "displayCount ui_init \<noteq> getDirty (worker_tick bgCount_init)
   \<and> displayCount (frame_callback 250 (worker_tick bgCount_init) ui_init) = 1
   \<and> ballY_at (frame_callback 250 (worker_tick bgCount_init) ui_init) 250 = 125
   \<and> ballY_at (frame_callback 250 (worker_tick bgCount_init) ui_init) 500 = 250
   \<and> ballY_at (frame_callback 250 (worker_tick bgCount_init) ui_init) 750 = 125
   \<and> ballY_at (frame_callback 250 (worker_tick bgCount_init) ui_init) 1000 = 0"
proof -
  have h: "displayCount ui_init \<noteq> getDirty (worker_tick bgCount_init)"
    by (simp add: ui_init_def getDirty_def worker_tick_eq bgCount_init_def)
  note t = C2_poller_starts_bounce [OF h, of 250]
  let ?st = "frame_callback 250 (worker_tick bgCount_init) ui_init"
  from t have d: "displayCount ?st = getDirty (worker_tick bgCount_init)"
    and a: "\<forall>t. 0 \<le> t \<and> t < 500 \<longrightarrow>
           ballY_at ?st t = ballY ui_init + (250 - ballY ui_init) * ease InOutQuad (t / 500)"
    and m: "ballY_at ?st 500 = 250"
    and b: "\<forall>t. 500 \<le> t \<and> t < 1000 \<longrightarrow>
           ballY_at ?st t = 250 + (0 - 250) * ease InOutQuad ((t - 500) / 500)"
    and e: "\<forall>t\<ge>1000. ballY_at ?st t = 0"
    by blast+
  from d have "displayCount ?st = 1"
    by (simp add: getDirty_def worker_tick_eq bgCount_init_def)
  moreover from a have "ballY_at ?st 250 = 125" by (simp add: ui_init_def)
  moreover from b have "ballY_at ?st 750 = 125" by simp
  moreover from e have "ballY_at ?st 1000 = 0" by simp
  ultimately show ?thesis using h m by simp
qed

text \<open>
  C3. A frame in which the value read from the counter equals \<open>displayCount\<close> leaves the
  whole UI-thread state as it was: no write to \<open>displayCount\<close> or \<open>ballY\<close>, no animation
  started. Hence a second frame reading the same value as the frame before it changes
  nothing and starts no further animation, and over any run of frames the number of
  animations started is the number of frames whose reading differs from the one before
  (the first compared with \<open>displayCount\<close>): one per change of the counter seen, and
  never more than one per frame.
\<close>

theorem C3_poller_idempotent:
  "(displayCount st = getDirty c \<longrightarrow> frame_callback B c st = st)
   \<and> frame_callback B c (frame_callback B c st) = frame_callback B c st
   \<and> animations_started (frame_callback B c (frame_callback B c st))
       = animations_started (frame_callback B c st)
   \<and> animations_started (run_frames B cs st)
       = animations_started st + count_changes (displayCount st) cs
   \<and> animations_started (run_frames B cs st) - animations_started st \<le> length cs"
proof -
  have i: "frame_callback B c (frame_callback B c st) = frame_callback B c st"
    by (rule frame_callback_same) (rule frame_callback_displayCount)
  have "count_changes p cs \<le> length cs" for p
    by (induction cs arbitrary: p) (auto simp add: le_SucI)
  then show ?thesis
    using i by (simp add: frame_callback_same run_frames_started)
qed

theorem C3_poller_idempotent_witness:
  "displayCount (ui_init\<lparr>displayCount := 1\<rparr>) = getDirty 1
   \<and> frame_callback 250 1 (ui_init\<lparr>displayCount := 1\<rparr>) = ui_init\<lparr>displayCount := 1\<rparr>
   \<and> animations_started (run_frames 250 [0, 1, 1, 1, 2, 2] ui_init) = 2"
proof -
  have h: "displayCount (ui_init\<lparr>displayCount := 1\<rparr>) = getDirty 1"
    by (simp add: getDirty_def)
  from C3_poller_idempotent [of "ui_init\<lparr>displayCount := 1\<rparr>" 1 250 "[]"] h
  have "frame_callback 250 1 (ui_init\<lparr>displayCount := 1\<rparr>) = ui_init\<lparr>displayCount := 1\<rparr>"
    by blast
  moreover from C3_poller_idempotent [of ui_init 0 250 "[0, 1, 1, 1, 2, 2]"]
  have "animations_started (run_frames 250 [0, 1, 1, 1, 2, 2] ui_init) = 2"
    by (simp add: ui_init_def)
  ultimately show ?thesis using h by simp
qed

text \<open>
  C10. When the worker fires \<open>k > 1\<close> times between two frames (the first frame having
  left \<open>displayCount\<close> equal to the counter \<open>c\<close>), the next frame sets \<open>displayCount\<close>
  straight to \<open>c + k\<close>: none of the \<open>k - 1\<close> values in between is ever held by
  \<open>displayCount\<close>, and exactly one bounce is started for the \<open>k\<close> increments.
\<close>

theorem C10_poller_jumps_to_latest:
  assumes "k > 1" and "displayCount st = getDirty c"
  shows "(worker_tick ^^ k) c = c + int k
     \<and> displayCount (frame_callback B ((worker_tick ^^ k) c) st) = c + int k
     \<and> (\<forall>j. 0 < j \<and> j < k \<longrightarrow>
           displayCount st \<noteq> c + int j
           \<and> displayCount (frame_callback B ((worker_tick ^^ k) c) st) \<noteq> c + int j)
     \<and> ballY_animation (frame_callback B ((worker_tick ^^ k) c) st) = Some (bounce B)
     \<and> animations_started (frame_callback B ((worker_tick ^^ k) c) st)
         = animations_started st + 1"
proof -
  have w: "(worker_tick ^^ k) c = c + int k"
    by (rule worker_ticks_eq)
  have ne: "displayCount st \<noteq> getDirty (c + int k)"
    using assms by (simp add: getDirty_def)
  have d: "displayCount st = c"
    using assms(2) by (simp add: getDirty_def)
  show ?thesis
    unfolding w frame_callback_changed [OF ne] using assms(1) d
    by (simp add: getDirty_def)
qed

theorem C10_poller_jumps_to_latest_witness:
  "(3 :: nat) > 1 \<and> displayCount (ui_init\<lparr>displayCount := 4\<rparr>) = getDirty 4
   \<and> (worker_tick ^^ 3) 4 = 7
   \<and> displayCount (frame_callback 250 ((worker_tick ^^ 3) 4) (ui_init\<lparr>displayCount := 4\<rparr>)) = 7
   \<and> animations_started
        (frame_callback 250 ((worker_tick ^^ 3) 4) (ui_init\<lparr>displayCount := 4\<rparr>)) = 1"
proof -
  have k: "(3 :: nat) > 1" by simp
  have h: "displayCount (ui_init\<lparr>displayCount := 4\<rparr>) = getDirty 4"
    by (simp add: getDirty_def)
  let ?st = "frame_callback 250 ((worker_tick ^^ 3) 4) (ui_init\<lparr>displayCount := 4\<rparr>)"
  from C10_poller_jumps_to_latest [OF k h, of 250]
  have "(worker_tick ^^ 3) 4 = 4 + int 3" "displayCount ?st = 4 + int 3"
    "animations_started ?st = animations_started (ui_init\<lparr>displayCount := 4\<rparr>) + 1"
    by blast+
  then have "(worker_tick ^^ 3) 4 = 7" "displayCount ?st = 7" "animations_started ?st = 1"
    by (simp_all add: ui_init_def)
  then show ?thesis using k h by blast
qed

end
